theory Spec2Isabelle
  imports Complex_Main "HOL-Library.AList"
begin

section \<open>Weather-247 client script: \<^verbatim>\<open>backend/static/js/weather.js\<close>\<close>

text \<open>
  The script is a collection of object literals: \<^verbatim>\<open>WeatherUtils\<close> (pure formatting and
  conversion helpers), \<^verbatim>\<open>WeatherAPI\<close> (a fetch wrapper), \<^verbatim>\<open>UIUtils\<close> (DOM helpers,
  debounce and throttle), \<^verbatim>\<open>StorageUtils\<close> (a localStorage wrapper) and \<^verbatim>\<open>WeatherCache\<close>
  (a Map with timestamps).

  Conventions of the embedding. A finite JavaScript number is modelled by the rational it
  denotes (every finite double is a rational, and comparisons of doubles agree with the
  comparisons of their values); arithmetic is the exact one, so rounding of intermediate
  results, NaN and the infinities are outside the model. Millisecond clock readings and
  array indices are integers. A thrown exception is the \<open>Inl\<close> of a sum type, \<^verbatim>\<open>undefined\<close>
  returned by an out-of-range array read is \<open>None\<close>.
\<close>

subsection \<open>JavaScript primitives used by the script\<close>

text \<open>\<^verbatim>\<open>Math.round\<close>: the nearest integer, a tie going towards plus infinity.\<close>

definition Math_round :: "rat \<Rightarrow> int" where
  "Math_round x = \<lfloor>x + 1 / 2\<rfloor>"

text \<open>The remainder operator \<^verbatim>\<open>%\<close> on integers: it truncates, so the result has the sign
  of the dividend (\<^verbatim>\<open>-2 % 16\<close> is \<^verbatim>\<open>-2\<close>).\<close>

definition js_rem :: "int \<Rightarrow> int \<Rightarrow> int" where
  "js_rem a b = sgn a * (\<bar>a\<bar> mod \<bar>b\<bar>)"

text \<open>An array read \<^verbatim>\<open>xs[i]\<close> with an integer index: \<^verbatim>\<open>undefined\<close> outside the array.\<close>

definition array_get :: "'a list \<Rightarrow> int \<Rightarrow> 'a option" where
  "array_get xs i = (if 0 \<le> i \<and> i < int (length xs) then Some (xs ! nat i) else None)"

subsection \<open>WeatherUtils\<close>

record aqi_info =
  level :: string
  color :: string
  description :: string

definition getAQILevel :: "rat \<Rightarrow> aqi_info" where
  "getAQILevel aqi =
     (if aqi \<le> 50 then
        \<lparr>level = ''Good'', color = ''green'', description = ''Air quality is satisfactory''\<rparr>
      else if aqi \<le> 100 then
        \<lparr>level = ''Moderate'', color = ''yellow'', description = ''Air quality is acceptable''\<rparr>
      else if aqi \<le> 150 then
        \<lparr>level = ''Unhealthy for Sensitive Groups'', color = ''orange'',
         description = ''Some pollutants may affect sensitive individuals''\<rparr>
      else if aqi \<le> 200 then
        \<lparr>level = ''Unhealthy'', color = ''red'',
         description = ''Everyone may begin to experience health effects''\<rparr>
      else if aqi \<le> 300 then
        \<lparr>level = ''Very Unhealthy'', color = ''purple'',
         description = ''Health warnings of emergency conditions''\<rparr>
      else
        \<lparr>level = ''Hazardous'', color = ''maroon'',
         description = ''Health alert: everyone may experience more serious health effects''\<rparr>)"

definition directions :: "string list" where
  "directions = [''N'', ''NNE'', ''NE'', ''ENE'', ''E'', ''ESE'', ''SE'', ''SSE'',
                 ''S'', ''SSW'', ''SW'', ''WSW'', ''W'', ''WNW'', ''NW'', ''NNW'']"

text \<open>The local \<^verbatim>\<open>index\<close> of \<^verbatim>\<open>getWindDirection\<close>; \<^verbatim>\<open>22.5\<close> is the rational \<open>45 / 2\<close>.\<close>

definition wind_index :: "rat \<Rightarrow> int" where
  "wind_index degrees = js_rem (Math_round (degrees / (45 / 2))) 16"

definition getWindDirection :: "rat \<Rightarrow> string option" where
  "getWindDirection degrees = (let index = wind_index degrees in array_get directions index)"

definition celsiusToFahrenheit :: "rat \<Rightarrow> rat" where
  "celsiusToFahrenheit celsius = (celsius * 9 / 5) + 32"

definition fahrenheitToCelsius :: "rat \<Rightarrow> rat" where
  "fahrenheitToCelsius fahrenheit = (fahrenheit - 32) * 5 / 9"

subsection \<open>Values held by the cache and by local storage\<close>

text \<open>The JSON-like values the script passes around without looking inside them.\<close>

datatype js_value =
    JUndefined
  | JNull
  | JBool bool
  | JNumber rat
  | JString string
  | JArray "js_value list"
  | JObject "(string \<times> js_value) list"

subsection \<open>Exceptions and the console\<close>

text \<open>
  The two kinds of exception the script meets: the \<^verbatim>\<open>Error\<close> it constructs itself with the
  message \<^verbatim>\<open>HTTP error! status: ...\<close>, and whatever a built-in raises (a rejected
  \<^verbatim>\<open>fetch\<close>, a \<^verbatim>\<open>SyntaxError\<close> of the JSON parser, a \<^verbatim>\<open>QuotaExceededError\<close> of local
  storage), kept by its name. A computation that may throw returns \<open>Inl\<close> of the exception.
\<close>

datatype js_error =
    HTTP_error nat
  | Thrown string

record js_console =
  console :: "(string \<times> js_error) list"

text \<open>\<^verbatim>\<open>console.error(message, error)\<close>.\<close>

definition console_error ::
  "string \<Rightarrow> js_error \<Rightarrow> 'z js_console_scheme \<Rightarrow> 'z js_console_scheme" where
  "console_error message error w = w\<lparr>console := console w @ [(message, error)]\<rparr>"

subsection \<open>WeatherAPI\<close>

text \<open>
  A request is kept as the parts the script builds it from: the path under \<^verbatim>\<open>baseURL\<close>, the
  query parameters in order (the entries of the \<^verbatim>\<open>URLSearchParams\<close>, or the single
  \<^verbatim>\<open>cities\<close> parameter that \<^verbatim>\<open>compareCities\<close> writes into the URL itself), and for a POST
  the headers and the value whose JSON text is the body. A response is what the script
  reads of it: \<^verbatim>\<open>ok\<close>, \<^verbatim>\<open>status\<close>, and the outcome of \<^verbatim>\<open>response.json()\<close>, which rejects
  when the body is not JSON.
\<close>

datatype http_method = GET | POST

record request =
  http_method :: http_method
  url :: string
  query :: "(string \<times> js_value) list"
  headers :: "(string \<times> string) list"
  body :: "js_value option"

record response =
  ok :: bool
  status :: nat
  json :: "js_error + js_value"

text \<open>The page as the API client sees it: how the network answers a request (\<open>Inl\<close>: the
  promise of \<^verbatim>\<open>fetch\<close> rejects), the requests sent so far, the console.\<close>

record api_world = js_console +
  network :: "request \<Rightarrow> js_error + response"
  requests :: "request list"

definition fetch :: "request \<Rightarrow> api_world \<Rightarrow> (js_error + response) \<times> api_world" where
  "fetch r w = (network w r, w\<lparr>requests := requests w @ [r]\<rparr>)"

definition baseURL :: string where
  "baseURL = ''/api''"

definition get_request :: "string \<Rightarrow> (string \<times> js_value) list \<Rightarrow> request" where
  "get_request path params =
     \<lparr>http_method = GET, url = path, query = params, headers = [], body = None\<rparr>"

text \<open>\<^verbatim>\<open>params.append(name, value)\<close> under \<^verbatim>\<open>if (value)\<close>: \<^verbatim>\<open>null\<close>, \<^verbatim>\<open>undefined\<close> (both \<open>None\<close>)
  and the empty string are falsy.\<close>

definition append_if_truthy ::
  "string \<Rightarrow> string option \<Rightarrow> (string \<times> js_value) list \<Rightarrow> (string \<times> js_value) list" where
  "append_if_truthy name v params =
     (case v of
        None \<Rightarrow> params
      | Some text \<Rightarrow> if text = [] then params else params @ [(name, JString text)])"

text \<open>\<^verbatim>\<open>cities.join(',')\<close>.\<close>

fun join :: "string \<Rightarrow> string list \<Rightarrow> string" where
  "join sep [] = []"
| "join sep [x] = x"
| "join sep (x # y # ys) = x @ sep @ join sep (y # ys)"

text \<open>
  Each method is one \<^verbatim>\<open>try\<close> block (the fetch, the test of \<^verbatim>\<open>response.ok\<close>, the read of the
  body) and one \<^verbatim>\<open>catch\<close> block that logs the exception and throws it again.
\<close>

definition getCurrentWeather ::
  "string \<Rightarrow> string option \<Rightarrow> api_world \<Rightarrow> (js_error + js_value) \<times> api_world" where
  "getCurrentWeather city country w =
     (let params = append_if_truthy ''country'' country [(''city'', JString city)];
          (fetched, w1) = fetch (get_request (baseURL @ ''/current-weather/'') params) w;
          tried = (case fetched of
                     Inl error \<Rightarrow> Inl error
                   | Inr response \<Rightarrow>
                       if \<not> ok response then Inl (HTTP_error (status response))
                       else json response)
      in case tried of
           Inl error \<Rightarrow> (Inl error, console_error ''Error fetching current weather:'' error w1)
         | Inr v \<Rightarrow> (Inr v, w1))"

text \<open>\<open>days\<close> is \<open>None\<close> when the caller leaves it out: the default is 5.\<close>

definition getForecast ::
  "string \<Rightarrow> int option \<Rightarrow> api_world \<Rightarrow> (js_error + js_value) \<times> api_world" where
  "getForecast city days w =
     (let days = (case days of None \<Rightarrow> 5 | Some n \<Rightarrow> n);
          params = [(''city'', JString city), (''days'', JNumber (of_int days))];
          (fetched, w1) = fetch (get_request (baseURL @ ''/weather-forecast/'') params) w;
          tried = (case fetched of
                     Inl error \<Rightarrow> Inl error
                   | Inr response \<Rightarrow>
                       if \<not> ok response then Inl (HTTP_error (status response))
                       else json response)
      in case tried of
           Inl error \<Rightarrow> (Inl error, console_error ''Error fetching forecast:'' error w1)
         | Inr v \<Rightarrow> (Inr v, w1))"

definition getHistoricalWeather ::
  "string \<Rightarrow> string option \<Rightarrow> string option \<Rightarrow> api_world \<Rightarrow> (js_error + js_value) \<times> api_world"
where
  "getHistoricalWeather city startDate endDate w =
     (let params = [(''city'', JString city)];
          params = append_if_truthy ''start_date'' startDate params;
          params = append_if_truthy ''end_date'' endDate params;
          (fetched, w1) = fetch (get_request (baseURL @ ''/historical-weather/'') params) w;
          tried = (case fetched of
                     Inl error \<Rightarrow> Inl error
                   | Inr response \<Rightarrow>
                       if \<not> ok response then Inl (HTTP_error (status response))
                       else json response)
      in case tried of
           Inl error \<Rightarrow> (Inl error, console_error ''Error fetching historical weather:'' error w1)
         | Inr v \<Rightarrow> (Inr v, w1))"

definition getAlerts :: "string \<Rightarrow> api_world \<Rightarrow> (js_error + js_value) \<times> api_world" where
  "getAlerts city w =
     (let params = [(''city'', JString city)];
          (fetched, w1) = fetch (get_request (baseURL @ ''/weather-alerts/'') params) w;
          tried = (case fetched of
                     Inl error \<Rightarrow> Inl error
                   | Inr response \<Rightarrow>
                       if \<not> ok response then Inl (HTTP_error (status response))
                       else json response)
      in case tried of
           Inl error \<Rightarrow> (Inl error, console_error ''Error fetching alerts:'' error w1)
         | Inr v \<Rightarrow> (Inr v, w1))"

definition compareCities :: "string list \<Rightarrow> api_world \<Rightarrow> (js_error + js_value) \<times> api_world" where
  "compareCities cities w =
     (let citiesStr = join '','' cities;
          (fetched, w1) =
            fetch (get_request (baseURL @ ''/compare-cities/'') [(''cities'', JString citiesStr)]) w;
          tried = (case fetched of
                     Inl error \<Rightarrow> Inl error
                   | Inr response \<Rightarrow>
                       if \<not> ok response then Inl (HTTP_error (status response))
                       else json response)
      in case tried of
           Inl error \<Rightarrow> (Inl error, console_error ''Error comparing cities:'' error w1)
         | Inr v \<Rightarrow> (Inr v, w1))"

definition getAirQuality ::
  "string \<Rightarrow> string option \<Rightarrow> api_world \<Rightarrow> (js_error + js_value) \<times> api_world" where
  "getAirQuality city country w =
     (let params = append_if_truthy ''country'' country [(''city'', JString city)];
          (fetched, w1) = fetch (get_request (baseURL @ ''/air-quality/'') params) w;
          tried = (case fetched of
                     Inl error \<Rightarrow> Inl error
                   | Inr response \<Rightarrow>
                       if \<not> ok response then Inl (HTTP_error (status response))
                       else json response)
      in case tried of
           Inl error \<Rightarrow> (Inl error, console_error ''Error fetching air quality:'' error w1)
         | Inr v \<Rightarrow> (Inr v, w1))"

definition searchCity :: "string \<Rightarrow> api_world \<Rightarrow> (js_error + js_value) \<times> api_world" where
  "searchCity q w =
     (let (fetched, w1) =
            fetch \<lparr>http_method = POST, url = baseURL @ ''/search-city/'', query = [],
                   headers = [(''Content-Type'', ''application/json'')],
                   body = Some (JObject [(''query'', JString q)])\<rparr> w;
          tried = (case fetched of
                     Inl error \<Rightarrow> Inl error
                   | Inr response \<Rightarrow>
                       if \<not> ok response then Inl (HTTP_error (status response))
                       else json response)
      in case tried of
           Inl error \<Rightarrow> (Inl error, console_error ''Error searching city:'' error w1)
         | Inr v \<Rightarrow> (Inr v, w1))"

text \<open>
  The contract of a method, read off a run \<open>r\<close> of it from the page \<open>w\<close>: one request was
  sent, and the result is decided by the answer to that request alone.
\<close>

definition answers_once :: "api_world \<Rightarrow> (js_error + js_value) \<times> api_world \<Rightarrow> bool" where
  "answers_once w r =
     (let w' = snd r; sent = last (requests w')
      in requests w' = requests w @ [sent] \<and>
         fst r = (case network w sent of
                    Inl error \<Rightarrow> Inl error
                  | Inr response \<Rightarrow>
                      if ok response then json response
                      else Inl (HTTP_error (status response))))"

text \<open>A server that answers every request with status 200 and a body that is not JSON.\<close>

definition html_server :: api_world where
  "html_server =
     \<lparr>console = [],
      network = (\<lambda>r. Inr \<lparr>ok = True, status = 200, json = Inl (Thrown ''SyntaxError'')\<rparr>),
      requests = []\<rparr>"

subsection \<open>StorageUtils\<close>

text \<open>
  The built-ins the storage helpers call, as the browser provides them: the four methods of
  \<^verbatim>\<open>localStorage\<close> over a store of type \<open>'st\<close>, and the two of \<^verbatim>\<open>JSON\<close>. Each may throw.
  \<^verbatim>\<open>getItem\<close> returns \<^verbatim>\<open>null\<close> (\<open>None\<close>) for a key that is not stored; \<^verbatim>\<open>JSON.stringify\<close>
  returns \<^verbatim>\<open>undefined\<close> (\<open>None\<close>) for a value that has no JSON text.
\<close>

record 'st browser =
  setItem :: "string \<Rightarrow> string \<Rightarrow> 'st \<Rightarrow> js_error + 'st"
  getItem :: "string \<Rightarrow> 'st \<Rightarrow> js_error + string option"
  removeItem :: "string \<Rightarrow> 'st \<Rightarrow> js_error + 'st"
  clearItems :: "'st \<Rightarrow> js_error + 'st"
  JSON_stringify :: "js_value \<Rightarrow> js_error + string option"
  JSON_parse :: "string \<Rightarrow> js_error + js_value"

record 'st page = js_console +
  storage :: 'st

text \<open>\<^verbatim>\<open>setItem\<close> converts its argument to a string: \<^verbatim>\<open>undefined\<close> becomes its name.\<close>

definition item_text :: "string option \<Rightarrow> string" where
  "item_text v = (case v of None \<Rightarrow> ''undefined'' | Some text \<Rightarrow> text)"

definition StorageUtils_save ::
  "'st browser \<Rightarrow> string \<Rightarrow> js_value \<Rightarrow> 'st page \<Rightarrow> (js_error + unit) \<times> 'st page" where
  "StorageUtils_save b key v p =
     (let tried = (case JSON_stringify b v of
                     Inl error \<Rightarrow> Inl error
                   | Inr text \<Rightarrow> setItem b key (item_text text) (storage p))
      in case tried of
           Inl error \<Rightarrow> (Inr (), console_error ''Error saving to localStorage:'' error p)
         | Inr st \<Rightarrow> (Inr (), p\<lparr>storage := st\<rparr>))"

text \<open>\<open>defaultValue\<close> is \<open>JNull\<close> when the caller leaves it out. An item that is \<^verbatim>\<open>null\<close> or
  the empty string is falsy.\<close>

definition StorageUtils_load ::
  "'st browser \<Rightarrow> string \<Rightarrow> js_value \<Rightarrow> 'st page \<Rightarrow> (js_error + js_value) \<times> 'st page" where
  "StorageUtils_load b key defaultValue p =
     (let tried = (case getItem b key (storage p) of
                     Inl error \<Rightarrow> Inl error
                   | Inr item \<Rightarrow>
                       (case item of
                          None \<Rightarrow> Inr defaultValue
                        | Some text \<Rightarrow> if text = [] then Inr defaultValue else JSON_parse b text))
      in case tried of
           Inl error \<Rightarrow> (Inr defaultValue, console_error ''Error loading from localStorage:'' error p)
         | Inr v \<Rightarrow> (Inr v, p))"

definition StorageUtils_remove ::
  "'st browser \<Rightarrow> string \<Rightarrow> 'st page \<Rightarrow> (js_error + unit) \<times> 'st page" where
  "StorageUtils_remove b key p =
     (case removeItem b key (storage p) of
        Inl error \<Rightarrow> (Inr (), console_error ''Error removing from localStorage:'' error p)
      | Inr st \<Rightarrow> (Inr (), p\<lparr>storage := st\<rparr>))"

definition StorageUtils_clear :: "'st browser \<Rightarrow> 'st page \<Rightarrow> (js_error + unit) \<times> 'st page" where
  "StorageUtils_clear b p =
     (case clearItems b (storage p) of
        Inl error \<Rightarrow> (Inr (), console_error ''Error clearing localStorage:'' error p)
      | Inr st \<Rightarrow> (Inr (), p\<lparr>storage := st\<rparr>))"

text \<open>
  A browser to run the helpers in: the store is an association list that holds at most two
  items (a third \<^verbatim>\<open>setItem\<close> is over quota), reading the key \<^verbatim>\<open>locked\<close> is denied, and the
  JSON functions know \<^verbatim>\<open>null\<close>, \<^verbatim>\<open>true\<close> and \<^verbatim>\<open>false\<close> only.
\<close>

definition small_browser :: "(string \<times> string) list browser" where
  "small_browser =
     \<lparr>setItem = (\<lambda>k v st. if length (AList.update k v st) > 2
                           then Inl (Thrown ''QuotaExceededError'')
                           else Inr (AList.update k v st)),
      getItem = (\<lambda>k st. if k = ''locked'' then Inl (Thrown ''SecurityError'')
                         else Inr (map_of st k)),
      removeItem = (\<lambda>k st. Inr (AList.delete k st)),
      clearItems = (\<lambda>st. Inr []),
      JSON_stringify = (\<lambda>v. case v of
                                JNull \<Rightarrow> Inr (Some ''null'')
                              | JBool x \<Rightarrow> Inr (Some (if x then ''true'' else ''false''))
                              | JUndefined \<Rightarrow> Inr None
                              | _ \<Rightarrow> Inl (Thrown ''TypeError'')),
      JSON_parse = (\<lambda>text. if text = ''null'' then Inr JNull
                            else if text = ''true'' then Inr (JBool True)
                            else if text = ''false'' then Inr (JBool False)
                            else Inl (Thrown ''SyntaxError''))\<rparr>"

subsection \<open>The built-in Map\<close>

text \<open>
  A JavaScript \<^verbatim>\<open>Map\<close> keeps its entries in insertion order, one entry per key. It is an
  association list here: \<^verbatim>\<open>set\<close> overwrites the value of a key in place or appends a new
  entry, \<^verbatim>\<open>delete\<close> drops the key, \<^verbatim>\<open>get\<close> reads it.
\<close>

type_synonym ('k, 'v) js_map = "('k \<times> 'v) list"

definition Map_get :: "('k, 'v) js_map \<Rightarrow> 'k \<Rightarrow> 'v option" where
  "Map_get m k = map_of m k"

definition Map_set :: "('k, 'v) js_map \<Rightarrow> 'k \<Rightarrow> 'v \<Rightarrow> ('k, 'v) js_map" where
  "Map_set m k v = AList.update k v m"

definition Map_delete :: "('k, 'v) js_map \<Rightarrow> 'k \<Rightarrow> ('k, 'v) js_map" where
  "Map_delete m k = AList.delete k m"

text \<open>The invariant of a \<^verbatim>\<open>Map\<close>: no key occurs twice.\<close>

definition Map_ok :: "('k, 'v) js_map \<Rightarrow> bool" where
  "Map_ok m = distinct (map fst m)"

subsection \<open>WeatherCache\<close>

record cache_item =
  data :: js_value
  timestamp :: int

record weather_cache =
  cache :: "(string, cache_item) js_map"
  maxAge :: int

text \<open>The object literal as the script creates it: an empty Map, ten minutes.\<close>

definition WeatherCache :: weather_cache where
  "WeatherCache = \<lparr>cache = [], maxAge = 10 * 60 * 1000\<rparr>"

text \<open>
  Every method takes the object and the reading of \<^verbatim>\<open>Date.now()\<close> it makes (when it makes
  one), and returns the object as it leaves it; \<^verbatim>\<open>get\<close> returns its result first. An item
  of the Map is an object, so \<^verbatim>\<open>!item\<close> holds exactly when the key is absent.
\<close>

definition WeatherCache_get :: "weather_cache \<Rightarrow> int \<Rightarrow> string \<Rightarrow> js_value \<times> weather_cache" where
  "WeatherCache_get c now key =
     (case Map_get (cache c) key of
        None \<Rightarrow> (JNull, c)
      | Some item \<Rightarrow>
          if now - timestamp item > maxAge c
          then (JNull, c\<lparr>cache := Map_delete (cache c) key\<rparr>)
          else (data item, c))"

definition WeatherCache_set :: "weather_cache \<Rightarrow> int \<Rightarrow> string \<Rightarrow> js_value \<Rightarrow> weather_cache" where
  "WeatherCache_set c now key d =
     c\<lparr>cache := Map_set (cache c) key \<lparr>data = d, timestamp = now\<rparr>\<rparr>"

text \<open>
  The \<^verbatim>\<open>for ... of this.cache.entries()\<close> loop of \<^verbatim>\<open>clearExpired\<close>. The iterator walks the
  entries in insertion order; the body deletes at most the entry being visited, so the
  entries still to come are those of the Map at the start of the loop.
\<close>

fun clearExpired_loop ::
  "int \<Rightarrow> int \<Rightarrow> (string \<times> cache_item) list \<Rightarrow> (string, cache_item) js_map \<Rightarrow> (string, cache_item) js_map"
where
  "clearExpired_loop now age [] m = m"
| "clearExpired_loop now age ((key, item) # entries) m =
     clearExpired_loop now age entries
       (if now - timestamp item > age then Map_delete m key else m)"

definition WeatherCache_clearExpired :: "weather_cache \<Rightarrow> int \<Rightarrow> weather_cache" where
  "WeatherCache_clearExpired c now =
     c\<lparr>cache := clearExpired_loop now (maxAge c) (cache c) (cache c)\<rparr>"

definition WeatherCache_clear :: "weather_cache \<Rightarrow> weather_cache" where
  "WeatherCache_clear c = c\<lparr>cache := []\<rparr>"

subsection \<open>Timers of the event loop\<close>

text \<open>
  \<^verbatim>\<open>setTimeout\<close> and \<^verbatim>\<open>clearTimeout\<close> over a clock in milliseconds. A pending timer is its
  handle, the time from which it may run and its callback (as data: what the callback
  closes over). \<^verbatim>\<open>setTimeout\<close> hands out fresh handles. Its delay is a 32-bit signed
  integer: the number passed is reduced modulo \<open>2^32\<close> into that range, and a negative
  result counts as zero, so a delay of \<open>2^31\<close> or more does not wait that long.
  \<^verbatim>\<open>clearTimeout\<close> of \<^verbatim>\<open>undefined\<close> (\<open>None\<close>) or of a handle that is not pending does
  nothing.
\<close>

type_synonym 'c timer = "nat \<times> int \<times> 'c"

definition handle :: "'c timer \<Rightarrow> nat" where
  "handle u = fst u"

definition due :: "'c timer \<Rightarrow> int" where
  "due u = fst (snd u)"

definition callback :: "'c timer \<Rightarrow> 'c" where
  "callback u = snd (snd u)"

record 'c timers =
  clock :: int
  next_handle :: nat
  pending :: "'c timer list"

definition no_timers :: "'c timers" where
  "no_timers = \<lparr>clock = 0, next_handle = 1, pending = []\<rparr>"

definition to_long :: "int \<Rightarrow> int" where
  "to_long n = (n + 2 ^ 31) mod 2 ^ 32 - 2 ^ 31"

definition setTimeout :: "'c \<Rightarrow> int \<Rightarrow> 'c timers \<Rightarrow> nat \<times> 'c timers" where
  "setTimeout cb delay tm =
     (next_handle tm,
      tm\<lparr>next_handle := Suc (next_handle tm),
         pending := pending tm @ [(next_handle tm, clock tm + max 0 (to_long delay), cb)]\<rparr>)"

definition clearTimeout :: "nat option \<Rightarrow> 'c timers \<Rightarrow> 'c timers" where
  "clearTimeout h tm =
     (case h of
        None \<Rightarrow> tm
      | Some i \<Rightarrow> tm\<lparr>pending := filter (\<lambda>u. handle u \<noteq> i) (pending tm)\<rparr>)"

fun earliest :: "'c timer \<Rightarrow> 'c timer list \<Rightarrow> 'c timer" where
  "earliest u [] = u"
| "earliest u (v # vs) = earliest (if due v < due u then v else u) vs"

text \<open>The timer that runs next among those that may run at time \<open>t\<close>, if there is one: the
  earliest due, and of several due together the one set first.\<close>

definition next_timer :: "int \<Rightarrow> 'c timers \<Rightarrow> 'c timer option" where
  "next_timer t tm =
     (case filter (\<lambda>u. due u \<le> t) (pending tm) of
        [] \<Rightarrow> None
      | u # us \<Rightarrow> Some (earliest u us))"

text \<open>The event loop takes a timer off the queue before it runs its callback.\<close>

definition take_timer :: "'c timer \<Rightarrow> 'c timers \<Rightarrow> 'c timers" where
  "take_timer u tm = tm\<lparr>pending := filter (\<lambda>v. handle v \<noteq> handle u) (pending tm)\<rparr>"

definition set_clock :: "int \<Rightarrow> 'c timers \<Rightarrow> 'c timers" where
  "set_clock t tm = tm\<lparr>clock := t\<rparr>"

text \<open>
  What happens to a wrapped function is a sequence of events, in the order the event loop
  runs them: the page invokes the function at some time with some arguments, or the event
  loop turns to its timers at some time and runs the next one, if one may run. Which event
  comes when is the platform's choice and not the script's: a timer never runs before it
  is due, but it may run late, and nothing runs between two invocations of one task. So
  the order is part of the input here, and a property that needs timers to run on time
  says so in its hypotheses.
\<close>

datatype 'a event =
    Invoke int 'a
  | RunTimer int

fun event_time :: "'a event \<Rightarrow> int" where
  "event_time (Invoke t args) = t"
| "event_time (RunTimer t) = t"

fun invocations :: "'a event list \<Rightarrow> (int \<times> 'a) list" where
  "invocations [] = []"
| "invocations (Invoke t args # es) = (t, args) # invocations es"
| "invocations (RunTimer t # es) = invocations es"

subsection \<open>UIUtils.debounce\<close>

text \<open>
  The closure of \<^verbatim>\<open>debounce(func, wait)\<close>: its variable \<^verbatim>\<open>timeout\<close> (\<^verbatim>\<open>undefined\<close> at
  first), the timers of the page, and the calls of \<^verbatim>\<open>func\<close> made so far, each with the
  time of the call and its arguments. The callback \<^verbatim>\<open>later\<close> closes over the arguments
  of the invocation that set it. The call of \<^verbatim>\<open>func\<close> is the last statement of \<^verbatim>\<open>later\<close>,
  so whether it returns or throws changes nothing in the closure.
\<close>

record 'a debounce =
  timeout :: "nat option"
  d_timers :: "'a timers"
  d_calls :: "(int \<times> 'a) list"

definition debounce_new :: "'a debounce" where
  "debounce_new = \<lparr>timeout = None, d_timers = no_timers, d_calls = []\<rparr>"

definition later :: "'a \<Rightarrow> 'a debounce \<Rightarrow> 'a debounce" where
  "later args s =
     (let s1 = s\<lparr>d_timers := clearTimeout (timeout s) (d_timers s)\<rparr>
      in s1\<lparr>d_calls := d_calls s1 @ [(clock (d_timers s1), args)]\<rparr>)"

definition executedFunction :: "int \<Rightarrow> 'a \<Rightarrow> 'a debounce \<Rightarrow> 'a debounce" where
  "executedFunction wait args s =
     (let tm = clearTimeout (timeout s) (d_timers s);
          (h, tm') = setTimeout args wait tm
      in s\<lparr>timeout := Some h, d_timers := tm'\<rparr>)"

text \<open>One event, and a sequence of events.\<close>

fun debounce_step :: "int \<Rightarrow> 'a event \<Rightarrow> 'a debounce \<Rightarrow> 'a debounce" where
  "debounce_step wait (Invoke t args) s =
     executedFunction wait args (s\<lparr>d_timers := set_clock t (d_timers s)\<rparr>)"
| "debounce_step wait (RunTimer t) s =
     (let s1 = s\<lparr>d_timers := set_clock t (d_timers s)\<rparr>
      in case next_timer t (d_timers s1) of
           None \<Rightarrow> s1
         | Some u \<Rightarrow> later (callback u) (s1\<lparr>d_timers := take_timer u (d_timers s1)\<rparr>))"

fun debounce_trace :: "int \<Rightarrow> 'a event list \<Rightarrow> 'a debounce \<Rightarrow> 'a debounce" where
  "debounce_trace wait [] s = s"
| "debounce_trace wait (e # es) s = debounce_trace wait es (debounce_step wait e s)"

text \<open>
  What the specification says of a debounced function: an invocation cancels the call that
  is scheduled, if any, and schedules one for \<open>wait\<close> later with its own arguments; the
  scheduled call is made when the timers run at or after that time. \<open>sched\<close> is the
  scheduled call: its time and arguments. The first function gives the calls of \<^verbatim>\<open>func\<close>,
  the second the call left scheduled at the end.
\<close>

fun debounce_spec :: "int \<Rightarrow> (int \<times> 'a) option \<Rightarrow> 'a event list \<Rightarrow> (int \<times> 'a) list" where
  "debounce_spec wait sched [] = []"
| "debounce_spec wait sched (Invoke t args # es) = debounce_spec wait (Some (t + wait, args)) es"
| "debounce_spec wait sched (RunTimer t # es) =
     (case sched of
        None \<Rightarrow> debounce_spec wait None es
      | Some p \<Rightarrow>
          if fst p \<le> t then (t, snd p) # debounce_spec wait None es
          else debounce_spec wait sched es)"

fun debounce_spec_scheduled ::
  "int \<Rightarrow> (int \<times> 'a) option \<Rightarrow> 'a event list \<Rightarrow> (int \<times> 'a) option" where
  "debounce_spec_scheduled wait sched [] = sched"
| "debounce_spec_scheduled wait sched (Invoke t args # es) =
     debounce_spec_scheduled wait (Some (t + wait, args)) es"
| "debounce_spec_scheduled wait sched (RunTimer t # es) =
     (case sched of
        None \<Rightarrow> debounce_spec_scheduled wait None es
      | Some p \<Rightarrow>
          if fst p \<le> t then debounce_spec_scheduled wait None es
          else debounce_spec_scheduled wait sched es)"

text \<open>A burst: every invocation comes less than \<open>w\<close> after the one before it.\<close>

fun burst :: "int \<Rightarrow> (int \<times> 'a) list \<Rightarrow> bool" where
  "burst w [] = True"
| "burst w [c] = True"
| "burst w (c # c' # cs) = (fst c' < fst c + w \<and> burst w (c' # cs))"

text \<open>
  The closure against the specification's \<open>sched\<close>: nothing scheduled and no timer pending;
  or one timer pending, the one \<^verbatim>\<open>timeout\<close> names, for the scheduled call.
\<close>

definition scheduled :: "(int \<times> 'a) option \<Rightarrow> 'a debounce \<Rightarrow> bool" where
  "scheduled sched s \<longleftrightarrow>
     (case sched of
        None \<Rightarrow> pending (d_timers s) = []
      | Some p \<Rightarrow>
          (case timeout s of
             None \<Rightarrow> False
           | Some h \<Rightarrow> pending (d_timers s) = [(h, fst p, snd p)]))"

subsection \<open>UIUtils.throttle\<close>

text \<open>
  The closure of \<^verbatim>\<open>throttle(func, limit)\<close>: its variable \<^verbatim>\<open>inThrottle\<close> (\<^verbatim>\<open>undefined\<close>, that
  is falsy, at first), the timers and the calls of \<^verbatim>\<open>func\<close>. The only callback is
  \<^verbatim>\<open>() => inThrottle = false\<close>, so a timer carries no data. \<open>throws\<close> tells for which
  arguments \<^verbatim>\<open>func\<close> throws: then the two statements after the call are not reached, and
  the exception leaves the wrapper.
\<close>

record 'a throttle =
  inThrottle :: bool
  t_timers :: "unit timers"
  t_calls :: "(int \<times> 'a) list"

definition throttle_new :: "'a throttle" where
  "throttle_new = \<lparr>inThrottle = False, t_timers = no_timers, t_calls = []\<rparr>"

definition release :: "'a throttle \<Rightarrow> 'a throttle" where
  "release s = s\<lparr>inThrottle := False\<rparr>"

definition throttled :: "int \<Rightarrow> ('a \<Rightarrow> bool) \<Rightarrow> 'a \<Rightarrow> 'a throttle \<Rightarrow> 'a throttle" where
  "throttled limit throws args s =
     (if \<not> inThrottle s then
        (let s1 = s\<lparr>t_calls := t_calls s @ [(clock (t_timers s), args)]\<rparr>
         in if throws args then s1
            else (let s2 = s1\<lparr>inThrottle := True\<rparr>;
                      (h, tm) = setTimeout () limit (t_timers s2)
                  in s2\<lparr>t_timers := tm\<rparr>))
      else s)"

fun throttle_step :: "int \<Rightarrow> ('a \<Rightarrow> bool) \<Rightarrow> 'a event \<Rightarrow> 'a throttle \<Rightarrow> 'a throttle" where
  "throttle_step limit throws (Invoke t args) s =
     throttled limit throws args (s\<lparr>t_timers := set_clock t (t_timers s)\<rparr>)"
| "throttle_step limit throws (RunTimer t) s =
     (let s1 = s\<lparr>t_timers := set_clock t (t_timers s)\<rparr>
      in case next_timer t (t_timers s1) of
           None \<Rightarrow> s1
         | Some u \<Rightarrow> release (s1\<lparr>t_timers := take_timer u (t_timers s1)\<rparr>))"

fun throttle_trace ::
  "int \<Rightarrow> ('a \<Rightarrow> bool) \<Rightarrow> 'a event list \<Rightarrow> 'a throttle \<Rightarrow> 'a throttle" where
  "throttle_trace limit throws [] s = s"
| "throttle_trace limit throws (e # es) s =
     throttle_trace limit throws es (throttle_step limit throws e s)"

text \<open>
  What the specification says of a throttled function: an invocation outside a cooldown
  calls \<^verbatim>\<open>func\<close> at once and starts a cooldown of \<open>limit\<close> (unless \<^verbatim>\<open>func\<close> throws); an
  invocation during a cooldown is dropped; the cooldown ends when the timers run at or
  after its end. \<open>cooldown\<close> is the end of the running cooldown. The first function gives
  the calls of \<^verbatim>\<open>func\<close>, the second the cooldown running at the end.
\<close>

fun throttle_spec ::
  "int \<Rightarrow> ('a \<Rightarrow> bool) \<Rightarrow> int option \<Rightarrow> 'a event list \<Rightarrow> (int \<times> 'a) list" where
  "throttle_spec limit throws cooldown [] = []"
| "throttle_spec limit throws cooldown (Invoke t args # es) =
     (case cooldown of
        None \<Rightarrow>
          (t, args) # throttle_spec limit throws (if throws args then None else Some (t + limit)) es
      | Some d \<Rightarrow> throttle_spec limit throws cooldown es)"
| "throttle_spec limit throws cooldown (RunTimer t # es) =
     (case cooldown of
        None \<Rightarrow> throttle_spec limit throws None es
      | Some d \<Rightarrow>
          if d \<le> t then throttle_spec limit throws None es
          else throttle_spec limit throws cooldown es)"

fun throttle_spec_cooldown ::
  "int \<Rightarrow> ('a \<Rightarrow> bool) \<Rightarrow> int option \<Rightarrow> 'a event list \<Rightarrow> int option" where
  "throttle_spec_cooldown limit throws cooldown [] = cooldown"
| "throttle_spec_cooldown limit throws cooldown (Invoke t args # es) =
     (case cooldown of
        None \<Rightarrow>
          throttle_spec_cooldown limit throws (if throws args then None else Some (t + limit)) es
      | Some d \<Rightarrow> throttle_spec_cooldown limit throws cooldown es)"
| "throttle_spec_cooldown limit throws cooldown (RunTimer t # es) =
     (case cooldown of
        None \<Rightarrow> throttle_spec_cooldown limit throws None es
      | Some d \<Rightarrow>
          if d \<le> t then throttle_spec_cooldown limit throws None es
          else throttle_spec_cooldown limit throws cooldown es)"

text \<open>
  The closure against the specification's \<open>cooldown\<close>: no cooldown, \<^verbatim>\<open>inThrottle\<close> falsy and
  no timer pending; or a cooldown, \<^verbatim>\<open>inThrottle\<close> set and one timer pending, due at its end.
\<close>

definition cooling :: "int option \<Rightarrow> 'a throttle \<Rightarrow> bool" where
  "cooling cooldown s \<longleftrightarrow>
     (case cooldown of
        None \<Rightarrow> \<not> inThrottle s \<and> pending (t_timers s) = []
      | Some d \<Rightarrow> inThrottle s \<and> map due (pending (t_timers s)) = [d])"

section \<open>Properties\<close>

subsection \<open>WeatherUtils\<close>

text \<open>
  C5. The AQI classifier gives the level \<^verbatim>\<open>Good\<close> on every input from 0 to 50,
  \<^verbatim>\<open>Moderate\<close> from 51 to 100, \<^verbatim>\<open>Unhealthy\<close> from 151 to 200, and \<^verbatim>\<open>Hazardous\<close> on 501, as
  on every input above the last boundary, 300.
\<close>

theorem getAQILevel_buckets:
  "(0 \<le> aqi \<and> aqi \<le> 50 \<longrightarrow> level (getAQILevel aqi) = ''Good'') \<and>
   (51 \<le> aqi \<and> aqi \<le> 100 \<longrightarrow> level (getAQILevel aqi) = ''Moderate'') \<and>
   (151 \<le> aqi \<and> aqi \<le> 200 \<longrightarrow> level (getAQILevel aqi) = ''Unhealthy'') \<and>
   level (getAQILevel 501) = ''Hazardous'' \<and>
   (300 < aqi \<longrightarrow> level (getAQILevel aqi) = ''Hazardous'')"
  by (simp add: getAQILevel_def)

theorem getAQILevel_buckets_witness:
  "level (getAQILevel 0) = ''Good'' \<and> level (getAQILevel 50) = ''Good'' \<and>
   level (getAQILevel 51) = ''Moderate'' \<and> level (getAQILevel 100) = ''Moderate'' \<and>
   level (getAQILevel 151) = ''Unhealthy'' \<and> level (getAQILevel 200) = ''Unhealthy'' \<and>
   level (getAQILevel 301) = ''Hazardous''"
  using getAQILevel_buckets [of 0] getAQILevel_buckets [of 50] getAQILevel_buckets [of 51]
    getAQILevel_buckets [of 100] getAQILevel_buckets [of 151] getAQILevel_buckets [of 200]
    getAQILevel_buckets [of 301]
  by simp

text \<open>Rounding a quotient in a known range.\<close>

lemma Math_round_bounds:
  assumes "of_int lo - 1 / 2 \<le> x" and "x < of_int hi + 1 / 2"
  shows "lo \<le> Math_round x" and "Math_round x \<le> hi"
proof -
  from assms(1) have "of_int lo \<le> x + 1 / 2" by simp
  then show "lo \<le> Math_round x" by (simp add: Math_round_def le_floor_iff)
  from assms(2) have "x + 1 / 2 < of_int hi + 1" by simp
  then show "Math_round x \<le> hi" by (simp add: Math_round_def floor_le_iff)
qed

lemma js_rem_nonneg:
  assumes "0 \<le> a" and "0 < b"
  shows "js_rem a b = a mod b"
  using assms by (simp add: js_rem_def sgn_if)

text \<open>
  C6. The wind direction of 0 degrees is \<^verbatim>\<open>N\<close>, of 90 degrees \<^verbatim>\<open>E\<close>, of 359 degrees \<^verbatim>\<open>N\<close>. The
  index is the rounded quotient by 22.5, modulo 16: from 348.75 degrees on, the quotient
  rounds to 16 and the index is back at 0, the sector of \<^verbatim>\<open>N\<close>.
\<close>

theorem getWindDirection_wraps:
  "getWindDirection 0 = Some ''N'' \<and>
   getWindDirection 90 = Some ''E'' \<and>
   getWindDirection 359 = Some ''N'' \<and>
   (1395 / 4 \<le> degrees \<and> degrees \<le> 360 \<longrightarrow>
      Math_round (degrees / (45 / 2)) = 16 \<and> wind_index degrees = 0 \<and>
      getWindDirection degrees = Some ''N'')"
proof -
  have c0: "getWindDirection 0 = Some ''N''" by code_simp
  have c90: "getWindDirection 90 = Some ''E''" by code_simp
  have c359: "getWindDirection 359 = Some ''N''" by code_simp
  have wrap: "Math_round (degrees / (45 / 2)) = 16 \<and> wind_index degrees = 0 \<and>
      getWindDirection degrees = Some ''N''"
    if lo: "1395 / 4 \<le> degrees" and hi: "degrees \<le> 360"
  proof -
    have "of_int 16 - 1 / 2 \<le> degrees / (45 / 2)" using lo by simp
    moreover have "degrees / (45 / 2) < of_int 16 + 1 / 2" using hi by simp
    ultimately have "16 \<le> Math_round (degrees / (45 / 2))" "Math_round (degrees / (45 / 2)) \<le> 16"
      by (rule Math_round_bounds)+
    then have r: "Math_round (degrees / (45 / 2)) = 16" by simp
    then have i: "wind_index degrees = 0" by (simp add: wind_index_def js_rem_def)
    then have "getWindDirection degrees = Some ''N''"
      by (simp add: getWindDirection_def array_get_def directions_def)
    with r i show ?thesis by simp
  qed
  from c0 c90 c359 wrap show ?thesis by blast
qed

theorem getWindDirection_wraps_witness:
  "Math_round (355 / (45 / 2)) = 16 \<and> wind_index 355 = 0 \<and> getWindDirection 355 = Some ''N''"
  using getWindDirection_wraps [of 355] by simp

text \<open>
  C9. Over exact arithmetic the two temperature conversions are inverse to each other, in
  both orders.
\<close>

theorem temperature_roundtrip:
  "fahrenheitToCelsius (celsiusToFahrenheit c) = c \<and>
   celsiusToFahrenheit (fahrenheitToCelsius f) = f"
  by (simp add: fahrenheitToCelsius_def celsiusToFahrenheit_def field_simps)

text \<open>
  C10. For degrees from 0 to 360 the index computed by \<^verbatim>\<open>getWindDirection\<close> is one of 0 to
  15, so the read of the 16 directions is in range and the result is the direction at that
  index. A negative input can leave the range: at -45 degrees the index is -2 and the
  result is \<^verbatim>\<open>undefined\<close>.
\<close>

theorem wind_index_in_bounds:
  "(0 \<le> degrees \<and> degrees \<le> 360 \<longrightarrow>
      0 \<le> wind_index degrees \<and> wind_index degrees < 16 \<and>
      wind_index degrees < int (length directions) \<and>
      getWindDirection degrees = Some (directions ! nat (wind_index degrees))) \<and>
   wind_index (-45) = -2 \<and> getWindDirection (-45) = None"
proof -
  have neg: "wind_index (-45) = -2 \<and> getWindDirection (-45) = None" by code_simp
  have len: "length directions = 16" by (simp add: directions_def)
  have inb: "0 \<le> wind_index degrees \<and> wind_index degrees < 16 \<and>
      wind_index degrees < int (length directions) \<and>
      getWindDirection degrees = Some (directions ! nat (wind_index degrees))"
    if lo: "0 \<le> degrees" and hi: "degrees \<le> 360"
  proof -
    have "of_int 0 - 1 / 2 \<le> degrees / (45 / 2)" using lo by simp
    moreover have "degrees / (45 / 2) < of_int 16 + 1 / 2" using hi by simp
    ultimately have r: "0 \<le> Math_round (degrees / (45 / 2))" "Math_round (degrees / (45 / 2)) \<le> 16"
      by (rule Math_round_bounds)+
    have i: "wind_index degrees = Math_round (degrees / (45 / 2)) mod 16"
      unfolding wind_index_def using r(1) by (simp add: js_rem_nonneg)
    have b: "0 \<le> wind_index degrees" "wind_index degrees < 16"
      unfolding i by simp_all
    then have "getWindDirection degrees = Some (directions ! nat (wind_index degrees))"
      by (simp add: getWindDirection_def array_get_def len)
    with b len show ?thesis by simp
  qed
  from neg inb show ?thesis by blast
qed

theorem wind_index_in_bounds_witness:
  "0 \<le> wind_index 200 \<and> wind_index 200 < 16 \<and>
   getWindDirection 200 = Some (directions ! nat (wind_index 200)) \<and>
   0 \<le> wind_index 360 \<and> wind_index 360 < 16"
  using wind_index_in_bounds [of 200] wind_index_in_bounds [of 360] by simp

subsection \<open>WeatherCache\<close>

lemma Map_get_set: "Map_get (Map_set m k v) k' = (if k' = k then Some v else Map_get m k')"
  by (simp add: Map_get_def Map_set_def update_conv')

lemma Map_get_delete: "Map_get (Map_delete m k) k' = (if k' = k then None else Map_get m k')"
  by (simp add: Map_get_def Map_delete_def delete_conv')

lemma Map_delete_filter: "Map_delete m k = filter (\<lambda>e. fst e \<noteq> k) m"
  unfolding Map_delete_def AList.delete_eq by (rule filter_cong) auto

lemma Map_ok_set: "Map_ok m \<Longrightarrow> Map_ok (Map_set m k v)"
  by (simp add: Map_ok_def Map_set_def distinct_update)

lemma Map_ok_delete: "Map_ok m \<Longrightarrow> Map_ok (Map_delete m k)"
  by (simp add: Map_ok_def Map_delete_def distinct_delete)

lemma Map_ok_filter: "Map_ok m \<Longrightarrow> Map_ok (filter P m)"
  by (simp add: Map_ok_def distinct_map_filter)

lemma Map_get_filter:
  assumes "Map_ok m"
  shows "Map_get (filter P m) k =
           (case Map_get m k of None \<Rightarrow> None | Some v \<Rightarrow> if P (k, v) then Some v else None)"
  using assms
proof (induction m)
  case Nil
  then show ?case by (simp add: Map_get_def)
next
  case (Cons e m)
  obtain k' v' where e: "e = (k', v')" by (cases e)
  from Cons.prems have ok: "Map_ok m" and fresh: "k' \<notin> fst ` set m"
    by (simp_all add: Map_ok_def e)
  from fresh have none: "map_of m k' = None"
    by (simp add: map_of_eq_None_iff)
  show ?case
    using Cons.IH [OF ok] none by (auto simp add: Map_get_def e split: option.splits)
qed

text \<open>The loop deletes the keys that some visited entry shows expired.\<close>

lemma clearExpired_loop_filter:
  "clearExpired_loop now age es m =
     filter (\<lambda>e. \<not> (\<exists>x \<in> set es. fst x = fst e \<and> age < now - timestamp (snd x))) m"
proof (induction es arbitrary: m)
  case Nil
  then show ?case by simp
next
  case (Cons e es)
  obtain key item where e: "e = (key, item)" by (cases e)
  show ?case
    unfolding e by (auto simp add: Cons.IH Map_delete_filter intro!: filter_cong)
qed

lemma clearExpired_loop_self:
  assumes "Map_ok m"
  shows "clearExpired_loop now age m m = filter (\<lambda>e. \<not> age < now - timestamp (snd e)) m"
proof -
  have "(\<exists>x \<in> set m. fst x = fst e \<and> age < now - timestamp (snd x)) \<longleftrightarrow>
          age < now - timestamp (snd e)"
    if "e \<in> set m" for e
  proof
    assume "\<exists>x \<in> set m. fst x = fst e \<and> age < now - timestamp (snd x)"
    then obtain x where x: "x \<in> set m" "age < now - timestamp (snd x)" "fst x = fst e" by auto
    from assms that x(1,3) have "x = e"
      unfolding Map_ok_def by (metis eq_key_imp_eq_value prod.collapse)
    with x show "age < now - timestamp (snd e)" by simp
  next
    assume "age < now - timestamp (snd e)"
    with that show "\<exists>x \<in> set m. fst x = fst e \<and> age < now - timestamp (snd x)" by auto
  qed
  then show ?thesis
    unfolding clearExpired_loop_filter by (auto intro!: filter_cong)
qed

text \<open>Every method keeps the Map well formed, and the object starts with an empty one.\<close>

lemma WeatherCache_Map_ok:
  "Map_ok (cache WeatherCache)"
  "Map_ok (cache c) \<Longrightarrow> Map_ok (cache (WeatherCache_set c now k v))"
  "Map_ok (cache c) \<Longrightarrow> Map_ok (cache (snd (WeatherCache_get c now k)))"
  "Map_ok (cache c) \<Longrightarrow> Map_ok (cache (WeatherCache_clearExpired c now))"
  "Map_ok (cache (WeatherCache_clear c))"
proof -
  show "Map_ok (cache WeatherCache)" by (simp add: WeatherCache_def Map_ok_def)
  show "Map_ok (cache (WeatherCache_clear c))" by (simp add: WeatherCache_clear_def Map_ok_def)
  assume ok: "Map_ok (cache c)"
  then show "Map_ok (cache (WeatherCache_set c now k v))"
    by (simp add: WeatherCache_set_def Map_ok_set)
  from ok show "Map_ok (cache (snd (WeatherCache_get c now k)))"
    by (simp add: WeatherCache_get_def Map_ok_delete split: option.splits)
  from ok show "Map_ok (cache (WeatherCache_clearExpired c now))"
    by (simp add: WeatherCache_clearExpired_def clearExpired_loop_self Map_ok_filter)
qed

text \<open>
  C1. Right after \<^verbatim>\<open>set(k, v)\<close> (at the same clock reading, or at any later one while the
  age of the entry is at most \<^verbatim>\<open>maxAge\<close>) \<^verbatim>\<open>get(k)\<close> returns \<open>v\<close> and leaves the cache as it is;
  once the age is above \<^verbatim>\<open>maxAge\<close> it returns \<^verbatim>\<open>null\<close>. For any entry whose age is above
  \<^verbatim>\<open>maxAge\<close>, \<^verbatim>\<open>get\<close> returns \<^verbatim>\<open>null\<close> and deletes that entry, and no other.
\<close>

theorem WeatherCache_get_after_set:
  "(now' - now \<le> maxAge c \<longrightarrow>
      WeatherCache_get (WeatherCache_set c now k v) now' k = (v, WeatherCache_set c now k v)) \<and>
   (0 \<le> maxAge c \<longrightarrow> fst (WeatherCache_get (WeatherCache_set c now k v) now k) = v) \<and>
   (maxAge c < now' - now \<longrightarrow>
      fst (WeatherCache_get (WeatherCache_set c now k v) now' k) = JNull) \<and>
   (Map_get (cache c) k = Some item \<and> maxAge c < now - timestamp item \<longrightarrow>
      fst (WeatherCache_get c now k) = JNull \<and>
      cache (snd (WeatherCache_get c now k)) = Map_delete (cache c) k \<and>
      Map_get (cache (snd (WeatherCache_get c now k))) k = None \<and>
      (\<forall>k'. k' \<noteq> k \<longrightarrow>
         Map_get (cache (snd (WeatherCache_get c now k))) k' = Map_get (cache c) k'))"
proof -
  have stored: "Map_get (cache (WeatherCache_set c now k v)) k = Some \<lparr>data = v, timestamp = now\<rparr>"
    by (simp add: WeatherCache_set_def Map_get_set)
  have age: "maxAge (WeatherCache_set c now k v) = maxAge c"
    by (simp add: WeatherCache_set_def)
  have fresh: "WeatherCache_get (WeatherCache_set c now k v) now' k = (v, WeatherCache_set c now k v)"
    if "now' - now \<le> maxAge c"
    using that by (simp add: WeatherCache_get_def stored age)
  have same: "fst (WeatherCache_get (WeatherCache_set c now k v) now k) = v" if "0 \<le> maxAge c"
    using that by (simp add: WeatherCache_get_def stored age)
  have stale: "fst (WeatherCache_get (WeatherCache_set c now k v) now' k) = JNull"
    if "maxAge c < now' - now"
    using that by (simp add: WeatherCache_get_def stored age)
  have evict: "fst (WeatherCache_get c now k) = JNull \<and>
      cache (snd (WeatherCache_get c now k)) = Map_delete (cache c) k \<and>
      Map_get (cache (snd (WeatherCache_get c now k))) k = None \<and>
      (\<forall>k'. k' \<noteq> k \<longrightarrow>
         Map_get (cache (snd (WeatherCache_get c now k))) k' = Map_get (cache c) k')"
    if "Map_get (cache c) k = Some item" and "maxAge c < now - timestamp item"
    using that by (simp add: WeatherCache_get_def Map_get_delete)
  from fresh same stale evict show ?thesis by blast
qed

theorem WeatherCache_get_after_set_witness:
  "WeatherCache_get (WeatherCache_set WeatherCache 1000 ''london'' (JString ''rain'')) 1000 ''london''
     = (JString ''rain'', WeatherCache_set WeatherCache 1000 ''london'' (JString ''rain'')) \<and>
   fst (WeatherCache_get (WeatherCache_set WeatherCache 1000 ''london'' (JString ''rain''))
          601001 ''london'') = JNull \<and>
   fst (WeatherCache_get \<lparr>cache = [(''oslo'', \<lparr>data = JNull, timestamp = 5\<rparr>)], maxAge = 10\<rparr>
          16 ''oslo'') = JNull \<and>
   cache (snd (WeatherCache_get \<lparr>cache = [(''oslo'', \<lparr>data = JNull, timestamp = 5\<rparr>)], maxAge = 10\<rparr>
          16 ''oslo'')) = []"
proof -
  let ?c = "\<lparr>cache = [(''oslo'', \<lparr>data = JNull, timestamp = 5\<rparr>)], maxAge = 10\<rparr>"
  have age: "maxAge WeatherCache = 600000" by (simp add: WeatherCache_def)
  have item: "Map_get [(''oslo'', \<lparr>data = JNull, timestamp = 5\<rparr>)] ''oslo''
      = Some \<lparr>data = JNull, timestamp = 5\<rparr>"
    by (simp add: Map_get_def)
  have del: "Map_delete [(''oslo'', \<lparr>data = JNull, timestamp = 5\<rparr>)] ''oslo'' = []"
    by (simp add: Map_delete_filter)
  from WeatherCache_get_after_set
    [of 1000 1000 WeatherCache "''london''" "JString ''rain''" "\<lparr>data = JNull, timestamp = 5\<rparr>"]
    WeatherCache_get_after_set
    [of 601001 1000 WeatherCache "''london''" "JString ''rain''" "\<lparr>data = JNull, timestamp = 5\<rparr>"]
    WeatherCache_get_after_set
    [of 16 16 ?c "''oslo''" JNull "\<lparr>data = JNull, timestamp = 5\<rparr>"]
  show ?thesis
    by (simp add: age item del)
qed

text \<open>
  C2. \<^verbatim>\<open>clearExpired\<close> at clock reading \<open>now\<close> removes exactly the entries whose age is above
  \<^verbatim>\<open>maxAge\<close>: the entries that stay are the others, unchanged and in their order, and
  \<^verbatim>\<open>maxAge\<close> is untouched.
\<close>

theorem WeatherCache_clearExpired_exact:
  assumes "Map_ok (cache c)"
  shows "cache (WeatherCache_clearExpired c now) =
           filter (\<lambda>e. \<not> maxAge c < now - timestamp (snd e)) (cache c) \<and>
         maxAge (WeatherCache_clearExpired c now) = maxAge c \<and>
         (\<forall>k. Map_get (cache (WeatherCache_clearExpired c now)) k =
            (case Map_get (cache c) k of
               None \<Rightarrow> None
             | Some item \<Rightarrow> if maxAge c < now - timestamp item then None else Some item))"
proof -
  have kept: "cache (WeatherCache_clearExpired c now) =
           filter (\<lambda>e. \<not> maxAge c < now - timestamp (snd e)) (cache c)"
    by (simp add: WeatherCache_clearExpired_def clearExpired_loop_self [OF assms])
  have age: "maxAge (WeatherCache_clearExpired c now) = maxAge c"
    by (simp add: WeatherCache_clearExpired_def)
  have "Map_get (cache (WeatherCache_clearExpired c now)) k =
            (case Map_get (cache c) k of
               None \<Rightarrow> None
             | Some item \<Rightarrow> if maxAge c < now - timestamp item then None else Some item)" for k
    unfolding kept Map_get_filter [OF assms] by (simp split: option.splits)
  with kept age show ?thesis by blast
qed

theorem WeatherCache_clearExpired_exact_witness:
  "Map_ok [(''oslo'', \<lparr>data = JNull, timestamp = 0\<rparr>), (''rome'', \<lparr>data = JBool True, timestamp = 500000\<rparr>)] \<and>
   cache (WeatherCache_clearExpired
      \<lparr>cache = [(''oslo'', \<lparr>data = JNull, timestamp = 0\<rparr>),
                (''rome'', \<lparr>data = JBool True, timestamp = 500000\<rparr>)], maxAge = 600000\<rparr> 700000)
     = [(''rome'', \<lparr>data = JBool True, timestamp = 500000\<rparr>)]"
proof -
  let ?m = "[(''oslo'', \<lparr>data = JNull, timestamp = 0\<rparr>),
             (''rome'', \<lparr>data = JBool True, timestamp = 500000\<rparr>)]"
  have ok: "Map_ok (cache \<lparr>cache = ?m, maxAge = 600000\<rparr>)" by (simp add: Map_ok_def)
  from ok WeatherCache_clearExpired_exact [OF ok, of 700000] show ?thesis by simp
qed

subsection \<open>Timers and events\<close>

lemma to_long_id:
  assumes "0 \<le> n" and "n < 2 ^ 31"
  shows "max 0 (to_long n) = n"
proof -
  from assms have "(n + 2 ^ 31) mod 2 ^ 32 = n + 2 ^ 31"
    by (intro mod_pos_pos_trivial) simp_all
  with assms(1) show ?thesis by (simp add: to_long_def)
qed

lemma invocations_append: "invocations (xs @ ys) = invocations xs @ invocations ys"
  by (induction xs rule: invocations.induct) simp_all

lemma invocations_mem:
  assumes "c \<in> set (invocations es)"
  shows "Invoke (fst c) (snd c) \<in> set es"
  using assms by (induction es rule: invocations.induct) auto

subsection \<open>UIUtils.debounce\<close>

lemma debounce_trace_append:
  "debounce_trace wait (xs @ ys) s = debounce_trace wait ys (debounce_trace wait xs s)"
  by (induction xs arbitrary: s) simp_all

lemma debounce_spec_append:
  "debounce_spec wait sched (xs @ ys) =
     debounce_spec wait sched xs @ debounce_spec wait (debounce_spec_scheduled wait sched xs) ys"
  by (induction wait sched xs rule: debounce_spec.induct) (auto split: option.splits)

lemma debounce_spec_scheduled_append:
  "debounce_spec_scheduled wait sched (xs @ ys) =
     debounce_spec_scheduled wait (debounce_spec_scheduled wait sched xs) ys"
  by (induction wait sched xs rule: debounce_spec_scheduled.induct) (auto split: option.splits)

text \<open>One event keeps the closure in step with the specification.\<close>

lemma debounce_step_scheduled:
  assumes "scheduled sched s" and "0 \<le> wait" and "wait < 2 ^ 31"
  shows "scheduled (debounce_spec_scheduled wait sched [e]) (debounce_step wait e s)"
    and "d_calls (debounce_step wait e s) = d_calls s @ debounce_spec wait sched [e]"
proof -
  note d = to_long_id [OF assms(2,3)]
  have "scheduled (debounce_spec_scheduled wait sched [e]) (debounce_step wait e s) \<and>
        d_calls (debounce_step wait e s) = d_calls s @ debounce_spec wait sched [e]"
  proof (cases e)
    case (Invoke t args)
    show ?thesis
      using assms(1)
      by (auto simp add: Invoke scheduled_def executedFunction_def clearTimeout_def
            setTimeout_def set_clock_def handle_def d Let_def split: option.splits)
  next
    case (RunTimer t)
    show ?thesis
    proof (cases sched)
      case None
      with assms(1) have "pending (d_timers s) = []" by (simp add: scheduled_def)
      then show ?thesis
        by (simp add: RunTimer None scheduled_def next_timer_def set_clock_def Let_def)
    next
      case (Some p)
      with assms(1) obtain h where h: "timeout s = Some h"
        and q: "pending (d_timers s) = [(h, fst p, snd p)]"
        by (auto simp add: scheduled_def split: option.splits)
      show ?thesis
        using h q
        by (simp add: RunTimer Some scheduled_def next_timer_def set_clock_def due_def
              callback_def handle_def take_timer_def later_def clearTimeout_def Let_def)
    qed
  qed
  then show "scheduled (debounce_spec_scheduled wait sched [e]) (debounce_step wait e s)"
    and "d_calls (debounce_step wait e s) = d_calls s @ debounce_spec wait sched [e]"
    by simp_all
qed

lemma debounce_trace_scheduled:
  assumes "scheduled sched s" and "0 \<le> wait" and "wait < 2 ^ 31"
  shows "scheduled (debounce_spec_scheduled wait sched es) (debounce_trace wait es s)"
    and "d_calls (debounce_trace wait es s) = d_calls s @ debounce_spec wait sched es"
  using assms(1)
proof (induction es arbitrary: sched s)
  case Nil
  {
    case 1
    then show ?case by simp
  next
    case 2
    then show ?case by simp
  }
next
  case (Cons e es)
  {
    case 1
    from debounce_step_scheduled(1) [OF 1 assms(2,3), of e]
    have "scheduled (debounce_spec_scheduled wait (debounce_spec_scheduled wait sched [e]) es)
            (debounce_trace wait es (debounce_step wait e s))"
      by (rule Cons.IH(1))
    then show ?case
      using debounce_spec_scheduled_append [of wait sched "[e]" es] by simp
  next
    case 2
    from debounce_step_scheduled [OF 2 assms(2,3), of e]
    have a: "scheduled (debounce_spec_scheduled wait sched [e]) (debounce_step wait e s)"
      and c: "d_calls (debounce_step wait e s) = d_calls s @ debounce_spec wait sched [e]"
      by simp_all
    from Cons.IH(2) [OF a] c show ?case
      using debounce_spec_append [of wait sched "[e]" es] by simp
  }
qed

lemma debounce_new_scheduled: "scheduled None debounce_new"
  by (simp add: scheduled_def debounce_new_def no_timers_def)

lemma debounce_refines:
  assumes "0 \<le> wait" and "wait < 2 ^ 31"
  shows "d_calls (debounce_trace wait es debounce_new) = debounce_spec wait None es"
  using debounce_trace_scheduled(2) [OF debounce_new_scheduled assms, of es]
  by (simp add: debounce_new_def)

lemma debounce_pending_after_invocation:
  assumes "0 \<le> wait" and "wait < 2 ^ 31"
  shows "map (\<lambda>u. (due u, callback u))
           (pending (d_timers (debounce_trace wait (es @ [Invoke t args]) debounce_new)))
         = [(t + wait, args)]"
proof -
  from debounce_trace_scheduled(1) [OF debounce_new_scheduled assms, of "es @ [Invoke t args]"]
  have "scheduled (Some (t + wait, args)) (debounce_trace wait (es @ [Invoke t args]) debounce_new)"
    by (simp add: debounce_spec_scheduled_append)
  then show ?thesis
    by (auto simp add: scheduled_def due_def callback_def split: option.splits)
qed

text \<open>The specification on timer events alone: the scheduled call is made at the first
  of them that is not too early.\<close>

lemma debounce_spec_timers_only:
  "debounce_spec wait None (map RunTimer ts) = []"
  "debounce_spec wait (Some (d, x)) (map RunTimer ts) =
     (case find (\<lambda>t. d \<le> t) ts of None \<Rightarrow> [] | Some t \<Rightarrow> [(t, x)])"
proof -
  show none: "debounce_spec wait None (map RunTimer ts) = []" for ts
    by (induction ts) simp_all
  show "debounce_spec wait (Some (d, x)) (map RunTimer ts) =
     (case find (\<lambda>t. d \<le> t) ts of None \<Rightarrow> [] | Some t \<Rightarrow> [(t, x)])"
    by (induction ts) (simp_all add: none)
qed

text \<open>
  The specification on a burst: while the invocations follow each other in less than the
  wait, and time does not run backwards, no timer event finds the scheduled call due, as
  long as another invocation is still to come.
\<close>

lemma debounce_spec_burst:
  assumes "sorted (map event_time (es @ [Invoke t args]))"
    and "burst wait (invocations (es @ [Invoke t args]))"
    and "case sched of
           None \<Rightarrow> True
         | Some p \<Rightarrow> fst (hd (invocations (es @ [Invoke t args]))) < fst p"
  shows "debounce_spec wait sched (es @ [Invoke t args]) = []"
  using assms
proof (induction es arbitrary: sched)
  case Nil
  then show ?case by simp
next
  case (Cons e es)
  let ?rest = "es @ [Invoke t args]"
  from Cons.prems(1) have sorted_rest: "sorted (map event_time ?rest)" by simp
  have inv_rest: "invocations ?rest \<noteq> []" by (simp add: invocations_append)
  then obtain c cs where cs: "invocations ?rest = c # cs" by (cases "invocations ?rest") auto
  show ?case
  proof (cases e)
    case (Invoke t1 a1)
    from Cons.prems(2) have b: "fst c < t1 + wait" "burst wait (invocations ?rest)"
      by (simp_all add: Invoke cs)
    have "debounce_spec wait (Some (t1 + wait, a1)) ?rest = []"
      using sorted_rest b by (intro Cons.IH) (simp_all add: cs)
    then show ?thesis by (simp add: Invoke)
  next
    case (RunTimer r)
    from Cons.prems(2) have b: "burst wait (invocations ?rest)" by (simp add: RunTimer)
    have "c \<in> set (invocations ?rest)" by (simp add: cs)
    then have "Invoke (fst c) (snd c) \<in> set ?rest" by (rule invocations_mem)
    then have "fst c \<in> set (map event_time ?rest)" by force
    with Cons.prems(1) have r: "r \<le> fst c" by (auto simp add: RunTimer)
    show ?thesis
    proof (cases sched)
      case None
      have "debounce_spec wait None ?rest = []"
        using sorted_rest b by (intro Cons.IH) simp_all
      then show ?thesis by (simp add: RunTimer None)
    next
      case (Some p)
      from Cons.prems(3) have lt: "fst c < fst p" by (simp add: Some RunTimer cs)
      have "debounce_spec wait (Some p) ?rest = []"
        using sorted_rest b lt by (intro Cons.IH) (simp_all add: cs)
      with r lt show ?thesis by (simp add: RunTimer Some)
    qed
  qed
qed

text \<open>
  Two runs at the edges of the platform. Two invocations in one task with a wait of 0: no
  timer can run between them, and \<^verbatim>\<open>func\<close> is called once, with the second arguments. A
  wait of \<open>2^31\<close>: the delay wraps, each timer may run at once, and both invocations call
  \<^verbatim>\<open>func\<close>.
\<close>

lemma debounce_same_task:
  "d_calls (debounce_trace 0 [Invoke 0 a, Invoke 0 b, RunTimer 0, RunTimer 0] debounce_new)
     = [(0, b)]"
  by (subst debounce_refines) simp_all

lemma debounce_delay_wraps:
  "d_calls (debounce_trace (2 ^ 31) [Invoke 0 a, RunTimer 1, Invoke 500 b, RunTimer 501]
      debounce_new) = [(1, a), (501, b)]"
  by (simp add: debounce_new_def no_timers_def executedFunction_def later_def setTimeout_def
        clearTimeout_def next_timer_def take_timer_def set_clock_def to_long_def handle_def
        due_def callback_def Let_def)

text \<open>
  C3. With a wait of 300 and invocations at 0, 50 and 100, \<^verbatim>\<open>func\<close> is called once, with
  the arguments of the invocation at 100, when the timers first run at or after 400: at
  400 when they run on time. In general, for a wait that \<^verbatim>\<open>setTimeout\<close> takes as it is:
  the calls of \<^verbatim>\<open>func\<close> are those of the specification, whatever the order of events;
  after an invocation exactly one timer is pending, the one this invocation set, due one
  wait later; and after a burst of invocations, whatever timer events come between them,
  only the last invocation makes a call of \<^verbatim>\<open>func\<close>, with its own arguments, at the first
  run of the timers that is one wait or more after it.
\<close>

theorem debounce_last_invocation_runs:
  fixes a b c args :: 'a and es pre :: "'a event list"
  shows
  "d_calls (debounce_trace 300 [Invoke 0 a, Invoke 50 b, Invoke 100 c, RunTimer 400] debounce_new)
     = [(400, c)] \<and>
   d_calls (debounce_trace 300 ([Invoke 0 a, Invoke 50 b, Invoke 100 c] @ map RunTimer ts)
      debounce_new)
     = (case find (\<lambda>t. 400 \<le> t) ts of None \<Rightarrow> [] | Some t \<Rightarrow> [(t, c)]) \<and>
   (0 \<le> wait \<and> wait < 2 ^ 31 \<longrightarrow>
      d_calls (debounce_trace wait es debounce_new) = debounce_spec wait None es) \<and>
   (0 \<le> wait \<and> wait < 2 ^ 31 \<longrightarrow>
      map (\<lambda>u. (due u, callback u))
        (pending (d_timers (debounce_trace wait (es @ [Invoke t args]) debounce_new)))
        = [(t + wait, args)]) \<and>
   (0 \<le> wait \<and> wait < 2 ^ 31 \<and>
    sorted (map event_time (pre @ [Invoke t args])) \<and>
    burst wait (invocations (pre @ [Invoke t args])) \<longrightarrow>
      d_calls (debounce_trace wait (pre @ [Invoke t args] @ map RunTimer ts) debounce_new)
        = (case find (\<lambda>t'. t + wait \<le> t') ts of None \<Rightarrow> [] | Some t' \<Rightarrow> [(t', args)]))"
proof -
  have range: "(0::int) \<le> 300" "(300::int) < 2 ^ 31" by simp_all
  have scenario: "d_calls (debounce_trace 300 ([Invoke 0 a, Invoke 50 b, Invoke 100 c] @ map RunTimer ts)
      debounce_new)
     = (case find (\<lambda>t. 400 \<le> t) ts of None \<Rightarrow> [] | Some t \<Rightarrow> [(t, c)])" for ts
    unfolding debounce_refines [OF range]
    using debounce_spec_timers_only(2) [of 300 400 c ts] by simp
  have on_time:
    "d_calls (debounce_trace 300 [Invoke 0 a, Invoke 50 b, Invoke 100 c, RunTimer 400] debounce_new)
       = [(400, c)]"
    using scenario [of "[400]"] by simp
  have last_only:
    "d_calls (debounce_trace wait (pre @ [Invoke t args] @ map RunTimer ts) debounce_new)
        = (case find (\<lambda>t'. t + wait \<le> t') ts of None \<Rightarrow> [] | Some t' \<Rightarrow> [(t', args)])"
    if w: "0 \<le> wait" "wait < 2 ^ 31"
      and s: "sorted (map event_time (pre @ [Invoke t args]))"
      and b: "burst wait (invocations (pre @ [Invoke t args]))"
  proof -
    have quiet: "debounce_spec wait None (pre @ [Invoke t args]) = []"
      using s b by (intro debounce_spec_burst) simp_all
    have left: "debounce_spec_scheduled wait None (pre @ [Invoke t args]) = Some (t + wait, args)"
      by (simp add: debounce_spec_scheduled_append)
    have "debounce_spec wait None ((pre @ [Invoke t args]) @ map RunTimer ts)
            = (case find (\<lambda>t'. t + wait \<le> t') ts of None \<Rightarrow> [] | Some t' \<Rightarrow> [(t', args)])"
      unfolding debounce_spec_append [of wait None "pre @ [Invoke t args]"] quiet left
      using debounce_spec_timers_only(2) [of wait "t + wait" args ts] by simp
    then show ?thesis
      unfolding debounce_refines [OF w] by simp
  qed
  from on_time scenario [of ts] debounce_refines [of wait es]
    debounce_pending_after_invocation [of wait es t args] last_only
  show ?thesis by blast
qed

theorem debounce_last_invocation_runs_witness:
  "d_calls (debounce_trace 300
      ([Invoke 0 ''l'', RunTimer 20, Invoke 50 ''lo''] @ [Invoke 100 ''lon'']
         @ map RunTimer [250, 400, 900]) debounce_new)
     = [(400, ''lon'')] \<and>
   map (\<lambda>u. (due u, callback u))
     (pending (d_timers (debounce_trace 300
        ([Invoke 0 ''l'', RunTimer 20, Invoke 50 ''lo''] @ [Invoke 100 ''lon'']) debounce_new)))
     = [(400, ''lon'')]"
proof -
  let ?pre = "[Invoke 0 ''l'', RunTimer 20, Invoke 50 ''lo'']"
  have range: "(0::int) \<le> 300 \<and> (300::int) < 2 ^ 31" by simp
  have ordered: "sorted (map event_time (?pre @ [Invoke 100 ''lon'']))" by simp
  have close: "burst 300 (invocations (?pre @ [Invoke 100 ''lon'']))" by simp
  from debounce_last_invocation_runs
    [of "''l''" "''lo''" "''lon''" "[250, 400, 900]" 300 ?pre 100 "''lon''" ?pre]
    range ordered close
  show ?thesis by simp
qed

subsection \<open>UIUtils.throttle\<close>

lemma throttle_trace_append:
  "throttle_trace limit throws (xs @ ys) s =
     throttle_trace limit throws ys (throttle_trace limit throws xs s)"
  by (induction xs arbitrary: s) simp_all

lemma throttle_spec_append:
  "throttle_spec limit throws cooldown (xs @ ys) =
     throttle_spec limit throws cooldown xs
       @ throttle_spec limit throws (throttle_spec_cooldown limit throws cooldown xs) ys"
  by (induction limit throws cooldown xs rule: throttle_spec.induct)
     (auto split: option.splits)

lemma throttle_spec_cooldown_append:
  "throttle_spec_cooldown limit throws cooldown (xs @ ys) =
     throttle_spec_cooldown limit throws (throttle_spec_cooldown limit throws cooldown xs) ys"
  by (induction limit throws cooldown xs rule: throttle_spec_cooldown.induct)
     (auto split: option.splits)

text \<open>One event keeps the closure in step with the specification.\<close>

lemma throttle_step_cooling:
  assumes "cooling cooldown s" and "0 \<le> limit" and "limit < 2 ^ 31"
  shows "cooling (throttle_spec_cooldown limit throws cooldown [e]) (throttle_step limit throws e s)"
    and "t_calls (throttle_step limit throws e s)
           = t_calls s @ throttle_spec limit throws cooldown [e]"
proof -
  note d = to_long_id [OF assms(2,3)]
  have "cooling (throttle_spec_cooldown limit throws cooldown [e]) (throttle_step limit throws e s) \<and>
        t_calls (throttle_step limit throws e s)
           = t_calls s @ throttle_spec limit throws cooldown [e]"
  proof (cases cooldown)
    case None
    with assms(1) have p: "pending (t_timers s) = []" and i: "\<not> inThrottle s"
      by (simp_all add: cooling_def)
    show ?thesis
      using p i
      by (cases e)
         (simp_all add: None cooling_def throttled_def setTimeout_def set_clock_def
            next_timer_def due_def d Let_def)
  next
    case (Some r)
    with assms(1) have i: "inThrottle s" and m: "map due (pending (t_timers s)) = [r]"
      by (simp_all add: cooling_def)
    from m obtain h x where p: "pending (t_timers s) = [(h, r, x)]"
      by (cases "pending (t_timers s)") (auto simp: due_def)
    show ?thesis
      using p i
      by (cases e)
         (simp_all add: Some cooling_def throttled_def set_clock_def next_timer_def due_def
            handle_def take_timer_def release_def Let_def)
  qed
  then show "cooling (throttle_spec_cooldown limit throws cooldown [e]) (throttle_step limit throws e s)"
    and "t_calls (throttle_step limit throws e s)
           = t_calls s @ throttle_spec limit throws cooldown [e]"
    by simp_all
qed

lemma throttle_trace_cooling:
  assumes "cooling cooldown s" and "0 \<le> limit" and "limit < 2 ^ 31"
  shows "t_calls (throttle_trace limit throws es s)
           = t_calls s @ throttle_spec limit throws cooldown es"
  using assms(1)
proof (induction es arbitrary: cooldown s)
  case Nil
  then show ?case by simp
next
  case (Cons e es)
  from throttle_step_cooling [OF Cons.prems assms(2,3), of throws e]
  have a: "cooling (throttle_spec_cooldown limit throws cooldown [e]) (throttle_step limit throws e s)"
    and c: "t_calls (throttle_step limit throws e s)
              = t_calls s @ throttle_spec limit throws cooldown [e]"
    by simp_all
  from Cons.IH [OF a] c show ?case
    using throttle_spec_append [of limit throws cooldown "[e]" es] by simp
qed

lemma throttle_new_cooling: "cooling None throttle_new"
  by (simp add: cooling_def throttle_new_def no_timers_def)

lemma throttle_refines:
  assumes "0 \<le> limit" and "limit < 2 ^ 31"
  shows "t_calls (throttle_trace limit throws es throttle_new) = throttle_spec limit throws None es"
  using throttle_trace_cooling [OF throttle_new_cooling assms, of throws es]
  by (simp add: throttle_new_def)

text \<open>The specification during a cooldown: nothing is called and the cooldown stays, while
  every event comes before its end.\<close>

lemma throttle_spec_dropped:
  assumes "\<forall>e \<in> set es. event_time e < d"
  shows "throttle_spec limit throws (Some d) es = []"
    and "throttle_spec_cooldown limit throws (Some d) es = Some d"
proof -
  have "throttle_spec limit throws (Some d) es = [] \<and>
        throttle_spec_cooldown limit throws (Some d) es = Some d"
    using assms
  proof (induction es)
    case Nil
    then show ?case by simp
  next
    case (Cons e es)
    then show ?case by (cases e) simp_all
  qed
  then show "throttle_spec limit throws (Some d) es = []"
    and "throttle_spec_cooldown limit throws (Some d) es = Some d"
    by simp_all
qed

text \<open>
  Three runs at the edges. A cooldown ends only when its timer runs: an invocation after
  the limit, but before the timer has run, is dropped. With a limit of 0 a second
  invocation in the same task is dropped too. And when \<^verbatim>\<open>func\<close> throws, no cooldown
  starts.
\<close>

lemma throttle_timer_late:
  "t_calls (throttle_trace 200 (\<lambda>x. False) [Invoke 0 a, Invoke 300 c, RunTimer 301] throttle_new)
     = [(0, a)]"
  by (subst throttle_refines) simp_all

lemma throttle_same_task:
  "t_calls (throttle_trace 0 (\<lambda>x. False) [Invoke 0 a, Invoke 0 b, RunTimer 0] throttle_new)
     = [(0, a)]"
  by (subst throttle_refines) simp_all

lemma throttle_func_throws:
  "t_calls (throttle_trace 200 (\<lambda>x. True) [Invoke 0 a, Invoke 10 b] throttle_new)
     = [(0, a), (10, b)]"
  by (subst throttle_refines) simp_all

text \<open>
  C4. With a limit of 200 and invocations at 0, 10 and 300, \<^verbatim>\<open>func\<close> is called twice, at 0
  and at 300, when the timer that ends the cooldown has run, at 200 or later, before the
  third invocation. In general, for a limit that \<^verbatim>\<open>setTimeout\<close> takes as it is: the calls
  of \<^verbatim>\<open>func\<close> are those of the specification, whatever the order of events; the first
  invocation calls \<^verbatim>\<open>func\<close> at once; when that call returns, nothing that happens before the
  limit has passed makes another call; and once the timers have run after the limit, the
  next invocation calls \<^verbatim>\<open>func\<close> at once and starts the next cooldown.
\<close>

theorem throttle_first_call_then_cooldown:
  fixes a b c args args' :: 'a and es es' :: "'a event list"
  shows
  "(\<not> throws a \<and> 200 \<le> r \<longrightarrow>
      t_calls (throttle_trace 200 throws [Invoke 0 a, Invoke 10 b, RunTimer r, Invoke 300 c]
         throttle_new) = [(0, a), (300, c)]) \<and>
   (0 \<le> limit \<and> limit < 2 ^ 31 \<longrightarrow>
      t_calls (throttle_trace limit throws es throttle_new) = throttle_spec limit throws None es) \<and>
   t_calls (throttle_trace limit throws [Invoke t args] throttle_new) = [(t, args)] \<and>
   (0 \<le> limit \<and> limit < 2 ^ 31 \<and> \<not> throws args \<and>
    (\<forall>e \<in> set es. event_time e < t + limit) \<longrightarrow>
      t_calls (throttle_trace limit throws (Invoke t args # es) throttle_new) = [(t, args)]) \<and>
   (0 \<le> limit \<and> limit < 2 ^ 31 \<and> \<not> throws args \<and>
    (\<forall>e \<in> set es. event_time e < t + limit) \<and> t + limit \<le> r \<longrightarrow>
      t_calls (throttle_trace limit throws
         (Invoke t args # es @ RunTimer r # Invoke t' args' # es') throttle_new)
        = (t, args) # (t', args')
            # throttle_spec limit throws (if throws args' then None else Some (t' + limit)) es')"
proof -
  have range: "(0::int) \<le> 200" "(200::int) < 2 ^ 31" by simp_all
  have scenario:
    "t_calls (throttle_trace 200 throws [Invoke 0 a, Invoke 10 b, RunTimer r, Invoke 300 c]
         throttle_new) = [(0, a), (300, c)]"
    if "\<not> throws a" and "200 \<le> r"
    unfolding throttle_refines [OF range] using that by simp
  have first: "t_calls (throttle_trace limit throws [Invoke t args] throttle_new) = [(t, args)]"
    by (simp add: throttled_def throttle_new_def set_clock_def setTimeout_def Let_def)
  have dropped:
    "t_calls (throttle_trace limit throws (Invoke t args # es) throttle_new) = [(t, args)]"
    if w: "0 \<le> limit" "limit < 2 ^ 31" and n: "\<not> throws args"
      and q: "\<forall>e \<in> set es. event_time e < t + limit"
    unfolding throttle_refines [OF w] using n throttle_spec_dropped(1) [OF q] by simp
  have resumes:
    "t_calls (throttle_trace limit throws
         (Invoke t args # es @ RunTimer r # Invoke t' args' # es') throttle_new)
        = (t, args) # (t', args')
            # throttle_spec limit throws (if throws args' then None else Some (t' + limit)) es'"
    if w: "0 \<le> limit" "limit < 2 ^ 31" and n: "\<not> throws args"
      and q: "\<forall>e \<in> set es. event_time e < t + limit" and r: "t + limit \<le> r"
    unfolding throttle_refines [OF w]
    using n r throttle_spec_dropped [OF q, of limit throws]
    by (simp add: throttle_spec_append)
  from scenario throttle_refines [of limit throws es] first dropped resumes
  show ?thesis by blast
qed

theorem throttle_first_call_then_cooldown_witness:
  "t_calls (throttle_trace 200 (\<lambda>x. False)
      [Invoke 0 ''a'', Invoke 10 ''b'', RunTimer 205, Invoke 300 ''c''] throttle_new)
     = [(0, ''a''), (300, ''c'')] \<and>
   t_calls (throttle_trace 200 (\<lambda>x. False)
      (Invoke 0 ''a'' # [Invoke 10 ''b'', RunTimer 150, Invoke 199 ''c'']) throttle_new)
     = [(0, ''a'')] \<and>
   t_calls (throttle_trace 200 (\<lambda>x. False)
      (Invoke 0 ''a'' # [Invoke 10 ''b'', RunTimer 150, Invoke 199 ''c'']
         @ RunTimer 205 # Invoke 300 ''d'' # [Invoke 310 ''e'']) throttle_new)
     = [(0, ''a''), (300, ''d'')]"
proof -
  let ?es = "[Invoke 10 ''b'', RunTimer 150, Invoke 199 ''c'']"
  have range: "(0::int) \<le> 200 \<and> (200::int) < 2 ^ 31" by simp
  have early: "\<forall>e \<in> set ?es. event_time e < 0 + 200" by simp
  from throttle_first_call_then_cooldown
    [of "\<lambda>x. False" "''a''" 205 "''b''" "''c''" 200 ?es 0 "''a''" 300 "''d''" "[Invoke 310 ''e'']"]
    range early
  show ?thesis by simp
qed

subsection \<open>WeatherAPI\<close>

lemma answers_onceI:
  assumes "requests (snd r) = requests w @ [sent]"
    and "fst r = (case network w sent of
                    Inl error \<Rightarrow> Inl error
                  | Inr response \<Rightarrow>
                      if ok response then json response
                      else Inl (HTTP_error (status response)))"
  shows "answers_once w r"
  using assms by (simp add: answers_once_def Let_def)

text \<open>What a \<^verbatim>\<open>try\<close> block and its \<^verbatim>\<open>catch\<close> make of the answer to the one request.\<close>

lemma try_fetch_json:
  fixes w :: api_world
  assumes "r = (let (fetched, w1) = fetch sent w;
                    tried = (case fetched of
                               Inl error \<Rightarrow> Inl error
                             | Inr response \<Rightarrow>
                                 if \<not> ok response then Inl (HTTP_error (status response))
                                 else json response)
                in case tried of
                     Inl error \<Rightarrow> (Inl error, console_error message error w1)
                   | Inr v \<Rightarrow> (Inr v, w1))"
  shows "answers_once w r"
proof (rule answers_onceI [where sent = sent])
  show "requests (snd r) = requests w @ [sent]"
    unfolding assms
    by (simp add: fetch_def console_error_def Let_def split: sum.splits)
  show "fst r = (case network w sent of
                    Inl error \<Rightarrow> Inl error
                  | Inr response \<Rightarrow>
                      if ok response then json response
                      else Inl (HTTP_error (status response)))"
    unfolding assms
    by (simp add: fetch_def Let_def split: sum.splits)
qed

text \<open>
  C7, as the code has it. Every method of the API client sends exactly one request (there is
  no retry) and its outcome is decided by the answer to it: a rejected \<^verbatim>\<open>fetch\<close> is thrown
  again as it is, a response that is not \<^verbatim>\<open>ok\<close> throws the explicit HTTP error with its
  status, and for a response that is \<^verbatim>\<open>ok\<close> the outcome is that of \<^verbatim>\<open>response.json()\<close>: the
  parsed body, or the exception of the parser thrown again.
\<close>

theorem WeatherAPI_answers_once:
  "answers_once w (getCurrentWeather city country w) \<and>
   answers_once w (getForecast city days w) \<and>
   answers_once w (getHistoricalWeather city startDate endDate w) \<and>
   answers_once w (getAlerts city w) \<and>
   answers_once w (compareCities cities w) \<and>
   answers_once w (getAirQuality city country w) \<and>
   answers_once w (searchCity q w)"
proof -
  have "answers_once w (getCurrentWeather city country w)"
    by (rule try_fetch_json) (simp add: getCurrentWeather_def Let_def)
  moreover have "answers_once w (getForecast city days w)"
    by (rule try_fetch_json) (simp add: getForecast_def Let_def)
  moreover have "answers_once w (getHistoricalWeather city startDate endDate w)"
    by (rule try_fetch_json) (simp add: getHistoricalWeather_def Let_def)
  moreover have "answers_once w (getAlerts city w)"
    by (rule try_fetch_json) (simp add: getAlerts_def Let_def)
  moreover have "answers_once w (compareCities cities w)"
    by (rule try_fetch_json) (simp add: compareCities_def Let_def)
  moreover have "answers_once w (getAirQuality city country w)"
    by (rule try_fetch_json) (simp add: getAirQuality_def Let_def)
  moreover have "answers_once w (searchCity q w)"
    by (rule try_fetch_json) (simp add: searchCity_def Let_def)
  ultimately show ?thesis by simp
qed

text \<open>
  C7, as the claim states it, fails: the server answers with status 200, \<^verbatim>\<open>response.ok\<close>
  holds and \<^verbatim>\<open>fetch\<close> does not reject, yet the method throws, because the body is not
  JSON.
\<close>

theorem WeatherAPI_ok_response_throws:
  "network html_server (last (requests (snd (getCurrentWeather ''Oslo'' None html_server))))
     = Inr \<lparr>ok = True, status = 200, json = Inl (Thrown ''SyntaxError'')\<rparr> \<and>
   requests (snd (getCurrentWeather ''Oslo'' None html_server))
     = [get_request ''/api/current-weather/'' [(''city'', JString ''Oslo'')]] \<and>
   fst (getCurrentWeather ''Oslo'' None html_server) = Inl (Thrown ''SyntaxError'') \<and>
   fst (searchCity ''Os'' html_server) = Inl (Thrown ''SyntaxError'')"
  by (simp add: getCurrentWeather_def searchCity_def html_server_def fetch_def console_error_def
        append_if_truthy_def baseURL_def Let_def)

subsection \<open>StorageUtils\<close>

text \<open>
  C8. None of \<^verbatim>\<open>save\<close>, \<^verbatim>\<open>load\<close>, \<^verbatim>\<open>remove\<close> and \<^verbatim>\<open>clear\<close> ever throws, whatever the built-ins
  of storage and of JSON do. \<^verbatim>\<open>load(k, d)\<close> returns \<open>d\<close> when reading the item throws, when
  parsing it throws, and when nothing is stored under \<open>k\<close>.
\<close>

theorem StorageUtils_never_throws:
  "fst (StorageUtils_save b k v p) = Inr () \<and>
   fst (StorageUtils_remove b k p) = Inr () \<and>
   fst (StorageUtils_clear b p) = Inr () \<and>
   \<not> isl (fst (StorageUtils_load b k d p)) \<and>
   (isl (getItem b k (storage p)) \<longrightarrow> fst (StorageUtils_load b k d p) = Inr d) \<and>
   (getItem b k (storage p) = Inr (Some text) \<and> isl (JSON_parse b text) \<longrightarrow>
      fst (StorageUtils_load b k d p) = Inr d) \<and>
   (getItem b k (storage p) = Inr None \<longrightarrow> fst (StorageUtils_load b k d p) = Inr d)"
proof -
  have save: "fst (StorageUtils_save b k v p) = Inr ()"
    by (simp add: StorageUtils_save_def Let_def split: sum.splits)
  have remove: "fst (StorageUtils_remove b k p) = Inr ()"
    by (simp add: StorageUtils_remove_def split: sum.splits)
  have clear: "fst (StorageUtils_clear b p) = Inr ()"
    by (simp add: StorageUtils_clear_def split: sum.splits)
  have load: "\<not> isl (fst (StorageUtils_load b k d p))"
    by (simp add: StorageUtils_load_def Let_def split: sum.splits option.splits)
  have read_fails: "fst (StorageUtils_load b k d p) = Inr d" if "isl (getItem b k (storage p))"
    using that by (auto simp add: StorageUtils_load_def Let_def isl_def)
  have parse_fails: "fst (StorageUtils_load b k d p) = Inr d"
    if "getItem b k (storage p) = Inr (Some text)" and "isl (JSON_parse b text)"
    using that by (auto simp add: StorageUtils_load_def Let_def isl_def)
  have absent: "fst (StorageUtils_load b k d p) = Inr d" if "getItem b k (storage p) = Inr None"
    using that by (simp add: StorageUtils_load_def Let_def)
  from save remove clear load read_fails parse_fails absent show ?thesis by blast
qed

theorem StorageUtils_never_throws_witness:
  "fst (StorageUtils_load small_browser ''locked'' (JString ''light'')
          \<lparr>console = [], storage = [(''theme'', ''dark'')]\<rparr>) = Inr (JString ''light'') \<and>
   fst (StorageUtils_load small_browser ''theme'' (JString ''light'')
          \<lparr>console = [], storage = [(''theme'', ''dark'')]\<rparr>) = Inr (JString ''light'') \<and>
   fst (StorageUtils_load small_browser ''units'' (JString ''light'')
          \<lparr>console = [], storage = [(''theme'', ''dark'')]\<rparr>) = Inr (JString ''light'')"
proof -
  let ?p = "\<lparr>console = [], storage = [(''theme'', ''dark'')]\<rparr>"
  have locked: "isl (getItem small_browser ''locked'' (storage ?p))"
    by (simp add: small_browser_def)
  have theme: "getItem small_browser ''theme'' (storage ?p) = Inr (Some ''dark'')"
    "isl (JSON_parse small_browser ''dark'')"
    by (simp_all add: small_browser_def)
  have units: "getItem small_browser ''units'' (storage ?p) = Inr None"
    by (simp add: small_browser_def)
  from StorageUtils_never_throws [of small_browser "''locked''" JNull ?p "JString ''light''" "''dark''"]
    locked
  have 1: "fst (StorageUtils_load small_browser ''locked'' (JString ''light'') ?p)
             = Inr (JString ''light'')" by blast
  from StorageUtils_never_throws [of small_browser "''theme''" JNull ?p "JString ''light''" "''dark''"]
    theme
  have 2: "fst (StorageUtils_load small_browser ''theme'' (JString ''light'') ?p)
             = Inr (JString ''light'')" by blast
  from StorageUtils_never_throws [of small_browser "''units''" JNull ?p "JString ''light''" "''dark''"]
    units
  have 3: "fst (StorageUtils_load small_browser ''units'' (JString ''light'') ?p)
             = Inr (JString ''light'')" by blast
  from 1 2 3 show ?thesis by simp
qed

end
